theory Spec2Isabelle
  imports Complex_Main
begin

section \<open>Batch collation and the epoch driver of the text-classification notebooks\<close>

text \<open>
  The two notebooks (IMDB sentiment, AG News topics) share one text pipeline and one
  collator and differ in their label pipeline. Everything below is a shallow embedding
  of that glue code. Python values that can raise are results of type \<open>py_error + 'a\<close>;
  one-dimensional integer tensors are lists.
\<close>

subsection \<open>Errors and labels\<close>

datatype py_error =
    ValueError          \<comment> \<open>\<^verbatim>\<open>int(label)\<close> on a string that is no integer literal\<close>
  | OverflowUnpacking   \<comment> \<open>\<^verbatim>\<open>torch.tensor(xs, dtype=torch.int64)\<close> on a value outside int64\<close>
  | CatEmptyList        \<comment> \<open>\<^verbatim>\<open>torch.cat([])\<close>\<close>
  | IndexOutOfRange     \<comment> \<open>an embedding lookup of an id outside the weight matrix\<close>

text \<open>
  A label as the dataset iterator yields it: the IMDB iterator yields strings
  (\<^verbatim>\<open>"neg"\<close>, \<^verbatim>\<open>"pos"\<close>), the AG News rows carry the class number, as text or as an integer.
\<close>

datatype label = LStr string | LInt int

subsection \<open>Python's \<^verbatim>\<open>int(...)\<close> on a label\<close>

text \<open>
  \<^verbatim>\<open>int(s)\<close> for a string strips surrounding whitespace, reads an optional sign and then
  decimal digits, where single underscores may separate digits; anything else raises
  ValueError. \<^verbatim>\<open>int(n)\<close> for an integer is \<^verbatim>\<open>n\<close>. A character of a string is a code
  point below 256 here. The whitespace that \<^verbatim>\<open>int\<close> strips is then tab, line feed,
  vertical tab, form feed, carriage return and space (9 to 13 and 32), and the two
  spaces beyond ASCII, next line (0x85) and no-break space (0xA0). The separators
  0x1C to 0x1F are not stripped, and no code point from 127 to 255 is a decimal digit.
\<close>

definition is_space :: "char \<Rightarrow> bool" where
  "is_space c =
     (let n = (of_char c :: nat) in (9 \<le> n \<and> n \<le> 13) \<or> n = 32 \<or> n = 133 \<or> n = 160)"

definition is_digit :: "char \<Rightarrow> bool" where
  "is_digit c = (let n = (of_char c :: nat) in 48 \<le> n \<and> n \<le> 57)"

definition digit_of :: "char \<Rightarrow> int" where
  "digit_of c = int (of_char c) - 48"

fun digits_value :: "int \<Rightarrow> string \<Rightarrow> int option" where
  "digits_value acc [] = None"
| "digits_value acc [c] = (if is_digit c then Some (10 * acc + digit_of c) else None)"
| "digits_value acc (c # d # cs) =
     (if \<not> is_digit c then None
      else if d = CHR ''_'' then digits_value (10 * acc + digit_of c) cs
      else digits_value (10 * acc + digit_of c) (d # cs))"

definition strip :: "string \<Rightarrow> string" where
  "strip s = rev (dropWhile is_space (rev (dropWhile is_space s)))"

definition int_of_string :: "string \<Rightarrow> py_error + int" where
  "int_of_string s =
     (case strip s of
        [] \<Rightarrow> Inl ValueError
      | c # cs \<Rightarrow>
          if c = CHR ''-'' then
            (case digits_value 0 cs of None \<Rightarrow> Inl ValueError | Some n \<Rightarrow> Inr (- n))
          else if c = CHR ''+'' then
            (case digits_value 0 cs of None \<Rightarrow> Inl ValueError | Some n \<Rightarrow> Inr n)
          else
            (case digits_value 0 (c # cs) of None \<Rightarrow> Inl ValueError | Some n \<Rightarrow> Inr n))"

fun py_int :: "label \<Rightarrow> py_error + int" where
  "py_int (LInt n) = Inr n"
| "py_int (LStr s) = int_of_string s"

text \<open>
  The decimal numeral of a natural number, most significant digit first and without
  leading zeros: the text by which a data file writes a class number.
\<close>

definition digit_char :: "nat \<Rightarrow> char" where
  "digit_char d = char_of (48 + d)"

fun decimal :: "nat \<Rightarrow> string" where
  "decimal n = (if n < 10 then [digit_char n] else decimal (n div 10) @ [digit_char (n mod 10)])"

declare decimal.simps [simp del]

subsection \<open>Label pipelines\<close>

text \<open>
  IMDB notebook: \<^verbatim>\<open>return 0 if label == "neg" else 1\<close>. The comparison is Python's
  \<^verbatim>\<open>==\<close>, which is false for a value that is no string.
\<close>

definition LabelPipeline_imdb :: "label \<Rightarrow> py_error + int" where
  "LabelPipeline_imdb label = Inr (if label = LStr ''neg'' then 0 else 1)"

text \<open>AG News notebook: \<^verbatim>\<open>return int(label) - 1\<close>.\<close>

definition LabelPipeline_ag :: "label \<Rightarrow> py_error + int" where
  "LabelPipeline_ag label = (case py_int label of Inl e \<Rightarrow> Inl e | Inr n \<Rightarrow> Inr (n - 1))"

subsection \<open>Vocabulary and text pipeline\<close>

text \<open>
  Modelled from the spec: the vocabulary class (torchtext's \<^verbatim>\<open>Vocab\<close>) is imported by the
  notebooks and its code is not part of the repository. The spec describes it as a
  frozen mapping from token string to a unique non-negative integer id, with a reserved
  id for the unknown token to which every unseen token resolves.
\<close>

record Vocab =
  stoi :: "string \<rightharpoonup> nat"
  unk_index :: nat

definition Vocab_getitem :: "Vocab \<Rightarrow> string \<Rightarrow> nat" where
  "Vocab_getitem vocab token =
     (case stoi vocab token of Some i \<Rightarrow> i | None \<Rightarrow> unk_index vocab)"

text \<open>
  \<^verbatim>\<open>return [self.vocab[token] for token in self.tokenizer(text)]\<close> (the IMDB notebook
  reads \<^verbatim>\<open>token.text\<close> of each spaCy token). The tokenizer is an external callable and
  a parameter here: it maps a text to the list of its token strings.
\<close>

definition TextPipeline :: "Vocab \<Rightarrow> (string \<Rightarrow> string list) \<Rightarrow> string \<Rightarrow> py_error + int list" where
  "TextPipeline vocab tokenizer text =
     Inr (map (\<lambda>token. int (Vocab_getitem vocab token)) (tokenizer text))"

text \<open>
  A concrete tokenizer for examples: splitting at spaces, dropping empty pieces.
  The empty text has no token under it, as under both tokenizers of the notebooks.
\<close>

fun split_spaces :: "string \<Rightarrow> string \<Rightarrow> string list" where
  "split_spaces cur [] = (if cur = [] then [] else [cur])"
| "split_spaces cur (c # cs) =
     (if c = CHR '' '' then (if cur = [] then split_spaces [] cs else cur # split_spaces [] cs)
      else split_spaces (cur @ [c]) cs)"

definition space_tokenizer :: "string \<Rightarrow> string list" where
  "space_tokenizer text = split_spaces [] text"

subsection \<open>Tensor primitives used by the collator\<close>

definition int64_ok :: "int \<Rightarrow> bool" where
  "int64_ok x = (- (2 ^ 63) \<le> x \<and> x < 2 ^ 63)"

text \<open>\<^verbatim>\<open>torch.tensor(xs, dtype=torch.int64)\<close>: raises on a value that does not fit.\<close>

definition tensor_int64 :: "int list \<Rightarrow> py_error + int list" where
  "tensor_int64 xs = (if list_all int64_ok xs then Inr xs else Inl OverflowUnpacking)"

text \<open>\<^verbatim>\<open>t.cumsum(dim=0)\<close>: the running sums.\<close>

fun cumsum_from :: "nat \<Rightarrow> nat list \<Rightarrow> nat list" where
  "cumsum_from acc [] = []"
| "cumsum_from acc (x # xs) = (acc + x) # cumsum_from (acc + x) xs"

definition cumsum :: "nat list \<Rightarrow> nat list" where
  "cumsum xs = cumsum_from 0 xs"

text \<open>\<^verbatim>\<open>torch.cat(ts)\<close>: raises on an empty list of tensors.\<close>

fun torch_cat :: "int list list \<Rightarrow> py_error + int list" where
  "torch_cat [] = Inl CatEmptyList"
| "torch_cat (t # ts) = Inr (concat (t # ts))"

subsection \<open>The collator\<close>

text \<open>
  The body of the \<^verbatim>\<open>for (label, text) in batch\<close> loop, with the three lists it appends
  to as the state. The first exception ends the loop.
\<close>

fun collate_loop ::
  "('t \<Rightarrow> py_error + int list) \<Rightarrow> ('l \<Rightarrow> py_error + int) \<Rightarrow> ('l \<times> 't) list \<Rightarrow>
   int list \<times> int list list \<times> nat list \<Rightarrow> py_error + (int list \<times> int list list \<times> nat list)" where
  "collate_loop text_pipeline label_pipeline [] st = Inr st"
| "collate_loop text_pipeline label_pipeline ((label, text) # rest) (labels, texts, offsets) =
     (case label_pipeline label of
        Inl e \<Rightarrow> Inl e
      | Inr l \<Rightarrow>
          (case text_pipeline text of
             Inl e \<Rightarrow> Inl e
           | Inr ids \<Rightarrow>
               (case tensor_int64 ids of
                  Inl e \<Rightarrow> Inl e
                | Inr processed_text \<Rightarrow>
                    collate_loop text_pipeline label_pipeline rest
                      (labels @ [l], texts @ [processed_text],
                       offsets @ [length processed_text]))))"

text \<open>
  \<^verbatim>\<open>Collator.__call__\<close>: the loop from \<^verbatim>\<open>[], [], [0]\<close>, then the labels tensor, the
  running sums of \<^verbatim>\<open>offsets[:-1]\<close>, and the concatenation of the texts.
  The result is \<^verbatim>\<open>(labels, texts, offsets)\<close>.
\<close>

definition Collator ::
  "('t \<Rightarrow> py_error + int list) \<Rightarrow> ('l \<Rightarrow> py_error + int) \<Rightarrow> ('l \<times> 't) list \<Rightarrow>
   py_error + (int list \<times> int list \<times> nat list)" where
  "Collator text_pipeline label_pipeline batch =
     (case collate_loop text_pipeline label_pipeline batch ([], [], [0]) of
        Inl e \<Rightarrow> Inl e
      | Inr (labels, texts, offsets) \<Rightarrow>
          (case tensor_int64 labels of
             Inl e \<Rightarrow> Inl e
           | Inr labels' \<Rightarrow>
               (let offsets' = cumsum (butlast offsets) in
                (case torch_cat texts of
                   Inl e \<Rightarrow> Inl e
                 | Inr texts' \<Rightarrow> Inr (labels', texts', offsets')))))"

subsection \<open>Spans and the embedding-bag stage\<close>

text \<open>
  The span of sample \<open>i\<close>: the slice \<^verbatim>\<open>texts[offsets[i]:offsets[i+1]]\<close>, and for the last
  sample the slice from its offset to the end of \<^verbatim>\<open>texts\<close>.
\<close>

definition span :: "'a list \<Rightarrow> nat list \<Rightarrow> nat \<Rightarrow> 'a list" where
  "span texts offsets i =
     (if Suc i < length offsets
      then take (offsets ! Suc i - offsets ! i) (drop (offsets ! i) texts)
      else drop (offsets ! i) texts)"

text \<open>
  Modelled from the spec: the embedding-bag layer (\<^verbatim>\<open>nn.EmbeddingBag\<close>, called by
  \<^verbatim>\<open>TextClassificationModel.forward\<close>) belongs to the external framework and its code is
  not part of the repository. The spec describes it: for each sample, average the
  embedding vectors of its tokens, using the offsets to delimit spans, producing one
  fixed-width vector per sample. Embedding values are reals here; a sample without
  tokens yields the zero vector, and an id outside the weight matrix raises.
\<close>

definition bag_mean :: "nat \<Rightarrow> real list list \<Rightarrow> real list" where
  "bag_mean width vs =
     (case vs of
        [] \<Rightarrow> replicate width 0
      | v # rest \<Rightarrow> map (\<lambda>x. x / real (length vs)) (foldl (map2 (+)) v rest))"

definition id_in_range :: "real list list \<Rightarrow> int \<Rightarrow> bool" where
  "id_in_range weight k = (0 \<le> k \<and> k < int (length weight))"

definition EmbeddingBag ::
  "nat \<Rightarrow> real list list \<Rightarrow> int list \<Rightarrow> nat list \<Rightarrow> py_error + real list list" where
  "EmbeddingBag width weight texts offsets =
     (if list_all (id_in_range weight) texts
      then Inr (map (\<lambda>i. bag_mean width (map (\<lambda>k. weight ! nat k) (span texts offsets i)))
                  [0..<length offsets])
      else Inl IndexOutOfRange)"

subsection \<open>The epoch driver\<close>

text \<open>
  The state the epoch loop carries from one epoch to the next: \<^verbatim>\<open>total_accu\<close> (initially
  \<^verbatim>\<open>None\<close>) and the scheduler with the optimizer's learning rate. The validation
  accuracy \<^verbatim>\<open>accu_val\<close> that \<^verbatim>\<open>evaluate\<close> returns is a parameter of each epoch; it is
  modelled by the real number the float denotes, which preserves the comparison
  \<^verbatim>\<open>total_accu > accu_val\<close>.
\<close>

record driver_state =
  total_accu :: "real option"
  sched_steps :: nat
  lr :: real

text \<open>\<^verbatim>\<open>LR = 5\<close> and the \<^verbatim>\<open>gamma=0.1\<close> of \<^verbatim>\<open>StepLR(optimizer, 1.0, gamma=0.1)\<close>.\<close>

definition LR :: real where
  "LR = 5"

definition gamma :: real where
  "gamma = 1 / 10"

definition driver_init :: driver_state where
  "driver_init = \<lparr>total_accu = None, sched_steps = 0, lr = LR\<rparr>"

text \<open>
  Modelled from the spec: the learning-rate scheduler (\<^verbatim>\<open>torch.optim.lr_scheduler.StepLR\<close>)
  belongs to the external framework and its code is not part of the repository. The
  spec says of it that a step decays the learning rate. As the notebook configures it,
  with a step size of 1 and \<^verbatim>\<open>gamma\<close>, every call of \<^verbatim>\<open>scheduler.step()\<close> multiplies the
  learning rate by \<^verbatim>\<open>gamma\<close>. The learning rate is a real number here; \<open>sched_steps\<close>
  counts the calls.
\<close>

definition scheduler_step :: "driver_state \<Rightarrow> driver_state" where
  "scheduler_step s = s\<lparr>sched_steps := Suc (sched_steps s), lr := lr s * gamma\<rparr>"

text \<open>
  \<^verbatim>\<open>if total_accu is not None and total_accu > accu_val: scheduler.step()\<close>
  \<^verbatim>\<open>else: total_accu = accu_val\<close>
\<close>

definition epoch_update :: "driver_state \<Rightarrow> real \<Rightarrow> driver_state" where
  "epoch_update s accu_val =
     (if total_accu s \<noteq> None \<and> the (total_accu s) > accu_val
      then scheduler_step s
      else s\<lparr>total_accu := Some accu_val\<rparr>)"

text \<open>The loop over the epochs, given the validation accuracy of each epoch in turn.\<close>

fun run_epochs :: "driver_state \<Rightarrow> real list \<Rightarrow> driver_state" where
  "run_epochs s [] = s"
| "run_epochs s (accu_val # rest) = run_epochs (epoch_update s accu_val) rest"

subsection \<open>Example data\<close>

text \<open>
  A small vocabulary in the layout the notebooks build: ids 0 and 1 are reserved for
  the unknown and the padding token, the words follow.
\<close>

definition example_vocab :: Vocab where
  "example_vocab =
     \<lparr>stoi = [''<unk>'' \<mapsto> 0, ''<pad>'' \<mapsto> 1, ''film'' \<mapsto> 2, ''bad'' \<mapsto> 3, ''great'' \<mapsto> 4],
      unk_index = 0\<rparr>"

definition example_weight :: "real list list" where
  "example_weight = [[0, 0], [1/2, 1/4], [1/4, -1/2], [-1/2, 1/8], [3/8, 3/8]]"

section \<open>Properties\<close>

subsection \<open>Running sums and the collator loop\<close>

lemma length_cumsum_from: "length (cumsum_from a xs) = length xs"
  by (induction xs arbitrary: a) auto

lemma nth_cumsum_from:
  "i < length xs \<Longrightarrow> cumsum_from a xs ! i = a + sum_list (take (Suc i) xs)"
proof (induction xs arbitrary: a i)
  case Nil
  then show ?case by simp
next
  case (Cons x xs)
  show ?case
  proof (cases i)
    case 0
    then show ?thesis by simp
  next
    case (Suc j)
    with Cons.prems have "j < length xs" by simp
    from Cons.IH [OF this, of "a + x"] Suc show ?thesis by simp
  qed
qed

lemma butlast_offsets:
  "idss \<noteq> [] \<Longrightarrow> butlast (0 # map length idss) = 0 # map length (butlast idss)"
  by (simp add: map_butlast)

lemma length_offsets:
  "idss \<noteq> [] \<Longrightarrow> length (cumsum (butlast (0 # map length idss))) = length idss"
  by (simp add: cumsum_def length_cumsum_from)

lemma nth_offsets:
  assumes "i < length idss"
  shows "cumsum (butlast (0 # map length idss)) ! i = length (concat (take i idss))"
proof -
  from assms have ne: "idss \<noteq> []" by auto
  have le: "i \<le> length (butlast idss)" using assms by simp
  have bl: "butlast (0 # map length idss) = 0 # map length (butlast idss)"
    using ne by (rule butlast_offsets)
  have len: "i < length (0 # map length (butlast idss))"
    using assms by simp
  have "cumsum (butlast (0 # map length idss)) ! i
        = sum_list (take (Suc i) (0 # map length (butlast idss)))"
    unfolding bl cumsum_def nth_cumsum_from [OF len] by simp
  also have "\<dots> = sum_list (map length (take i (butlast idss)))"
    by (simp add: take_map)
  also have "take i (butlast idss) = take i idss"
    using assms by (simp add: take_butlast)
  finally show ?thesis by (simp add: length_concat)
qed

lemma collate_loop_success:
  assumes "list_all2 (\<lambda>s l. lp (fst s) = Inr l) batch ls"
    and "list_all2 (\<lambda>s ids. tp (snd s) = Inr ids) batch idss"
    and "list_all (list_all int64_ok) idss"
  shows "collate_loop tp lp batch (Ls, Ts, Os) = Inr (Ls @ ls, Ts @ idss, Os @ map length idss)"
  using assms
proof (induction batch arbitrary: ls idss Ls Ts Os)
  case Nil
  then show ?case by simp
next
  case (Cons s batch)
  obtain lab tx where s: "s = (lab, tx)" by (cases s)
  from Cons.prems(1) obtain l ls' where ls: "ls = l # ls'" "lp lab = Inr l"
    "list_all2 (\<lambda>s l. lp (fst s) = Inr l) batch ls'"
    by (auto simp: list_all2_Cons1 s)
  from Cons.prems(2) obtain ids idss' where idss: "idss = ids # idss'" "tp tx = Inr ids"
    "list_all2 (\<lambda>s ids. tp (snd s) = Inr ids) batch idss'"
    by (auto simp: list_all2_Cons1 s)
  from Cons.prems(3) idss have ok: "list_all int64_ok ids" "list_all (list_all int64_ok) idss'"
    by simp_all
  show ?case
    using Cons.IH [OF ls(3) idss(3) ok(2), of "Ls @ [l]" "Ts @ [ids]" "Os @ [length ids]"]
    by (simp add: s ls idss ok tensor_int64_def)
qed

lemma collate_loop_Inr:
  assumes "collate_loop tp lp batch (Ls, Ts, Os) = Inr (Ls', Ts', Os')"
  shows "\<exists>ls idss. Ls' = Ls @ ls \<and> Ts' = Ts @ idss \<and> Os' = Os @ map length idss \<and>
           list_all2 (\<lambda>s l. lp (fst s) = Inr l) batch ls \<and>
           list_all2 (\<lambda>s ids. tp (snd s) = Inr ids) batch idss \<and>
           list_all (list_all int64_ok) idss"
  using assms
proof (induction batch arbitrary: Ls Ts Os)
  case Nil
  then show ?case by simp
next
  case (Cons s batch)
  obtain lab tx where s: "s = (lab, tx)" by (cases s)
  from Cons.prems obtain l ids where
    l: "lp lab = Inr l" and ids: "tp tx = Inr ids" and ok: "list_all int64_ok ids" and
    rest: "collate_loop tp lp batch (Ls @ [l], Ts @ [ids], Os @ [length ids]) = Inr (Ls', Ts', Os')"
    by (auto simp: s tensor_int64_def split: sum.splits if_splits)
  from Cons.IH [OF rest] obtain ls idss where
    "Ls' = (Ls @ [l]) @ ls" "Ts' = (Ts @ [ids]) @ idss" "Os' = (Os @ [length ids]) @ map length idss"
    "list_all2 (\<lambda>s l. lp (fst s) = Inr l) batch ls"
    "list_all2 (\<lambda>s ids. tp (snd s) = Inr ids) batch idss"
    "list_all (list_all int64_ok) idss"
    by blast
  then show ?case
    using l ids ok
    by (intro exI [of _ "l # ls"] exI [of _ "ids # idss"]) (simp add: s)
qed

lemma Collator_success:
  assumes "batch \<noteq> []"
    and "list_all2 (\<lambda>s l. lp (fst s) = Inr l) batch ls"
    and "list_all2 (\<lambda>s ids. tp (snd s) = Inr ids) batch idss"
    and "list_all (list_all int64_ok) idss"
    and "list_all int64_ok ls"
  shows "Collator tp lp batch = Inr (ls, concat idss, cumsum (butlast (0 # map length idss)))"
proof -
  from assms(1,3) have "idss \<noteq> []" by auto
  then obtain t ts where "idss = t # ts" by (cases idss) auto
  then show ?thesis
    using collate_loop_success [OF assms(2,3,4), of "[]" "[]" "[0]"] assms(5)
    by (simp add: Collator_def tensor_int64_def)
qed

lemma Collator_Inr:
  assumes "Collator tp lp batch = Inr (labels, texts, offsets)"
  shows "batch \<noteq> [] \<and> (\<exists>idss.
           list_all2 (\<lambda>s l. lp (fst s) = Inr l) batch labels \<and>
           list_all2 (\<lambda>s ids. tp (snd s) = Inr ids) batch idss \<and>
           list_all (list_all int64_ok) idss \<and> list_all int64_ok labels \<and>
           texts = concat idss \<and> offsets = cumsum (butlast (0 # map length idss)))"
proof -
  from assms obtain Ls Ts Os where
    loop: "collate_loop tp lp batch ([], [], [0]) = Inr (Ls, Ts, Os)"
    by (auto simp: Collator_def split: sum.splits)
  from collate_loop_Inr [OF loop] obtain ls idss where
    eqs: "Ls = ls" "Ts = idss" "Os = 0 # map length idss" and
    all: "list_all2 (\<lambda>s l. lp (fst s) = Inr l) batch ls"
      "list_all2 (\<lambda>s ids. tp (snd s) = Inr ids) batch idss"
      "list_all (list_all int64_ok) idss"
    by auto
  from assms loop eqs have ne: "idss \<noteq> []"
    by (auto simp: Collator_def tensor_int64_def split: sum.splits if_splits)
  with all(2) have "batch \<noteq> []" by auto
  moreover from assms loop eqs ne have
    "labels = ls" "list_all int64_ok ls" "texts = concat idss"
    "offsets = cumsum (butlast (0 # map length idss))"
    by (cases idss; auto simp: Collator_def tensor_int64_def Let_def split: sum.splits if_splits)+
  ultimately show ?thesis using all by blast
qed

lemma concat_split_nth:
  "i < length idss \<Longrightarrow>
   concat idss = concat (take i idss) @ idss ! i @ concat (drop (Suc i) idss)"
proof -
  assume "i < length idss"
  then have "idss = take i idss @ idss ! i # drop (Suc i) idss"
    by (simp add: id_take_nth_drop [symmetric])
  then have "concat idss = concat (take i idss @ idss ! i # drop (Suc i) idss)"
    by simp
  then show ?thesis by simp
qed

lemma span_offsets:
  assumes i: "i < length idss"
    and len: "length offsets = length idss"
    and nth: "\<And>j. j < length idss \<Longrightarrow> offsets ! j = length (concat (take j idss))"
  shows "span (concat idss) offsets i = idss ! i"
proof (cases "Suc i < length idss")
  case True
  have "offsets ! Suc i = length (concat (take i idss)) + length (idss ! i)"
    using nth [OF True] i by (simp add: take_Suc_conv_app_nth)
  moreover have "offsets ! i = length (concat (take i idss))"
    using nth [OF i] .
  ultimately show ?thesis
    using True len concat_split_nth [OF i] by (simp add: span_def)
next
  case False
  with i have "drop (Suc i) idss = []" by simp
  then have "concat idss = concat (take i idss) @ idss ! i"
    using concat_split_nth [OF i] by simp
  moreover have "offsets ! i = length (concat (take i idss))"
    using nth [OF i] .
  ultimately show ?thesis
    using False len by (simp add: span_def)
qed

lemma last_offsets:
  assumes "idss \<noteq> []"
  shows "last (cumsum (butlast (0 # map length idss))) + length (last idss)
         = length (concat idss)"
proof -
  let ?offsets = "cumsum (butlast (0 # map length idss))"
  let ?n = "length idss - 1"
  have n: "?n < length idss" using assms by (cases idss) auto
  have ne: "?offsets \<noteq> []"
    using length_offsets [OF assms] assms by auto
  have "last ?offsets = ?offsets ! ?n"
    using ne length_offsets [OF assms] by (simp add: last_conv_nth)
  also have "\<dots> = length (concat (take ?n idss))"
    by (rule nth_offsets [OF n])
  finally have "last ?offsets = length (concat (butlast idss))"
    by (simp add: butlast_conv_take)
  moreover have "concat idss = concat (butlast idss) @ last idss"
    using assms append_butlast_last_id [of idss, symmetric]
    by (metis concat.simps(1) concat.simps(2) concat_append append_Nil2)
  ultimately show ?thesis by simp
qed

lemma list_all2_conj_split:
  "list_all2 (\<lambda>x y. P x y \<and> Q y) xs ys \<Longrightarrow> list_all2 P xs ys \<and> list_all Q ys"
  by (induction xs ys rule: list_all2_induct) auto

lemma Collator_returns:
  assumes "batch \<noteq> []"
    and "list_all2 (\<lambda>s l. lp (fst s) = Inr l \<and> int64_ok l) batch ls"
    and "list_all2 (\<lambda>s ids. tp (snd s) = Inr ids \<and> list_all int64_ok ids) batch idss"
  shows "Collator tp lp batch = Inr (ls, concat idss, cumsum (butlast (0 # map length idss)))"
    and "length idss = length batch" and "idss \<noteq> []"
proof -
  from list_all2_conj_split [OF assms(2)]
  have a: "list_all2 (\<lambda>s l. lp (fst s) = Inr l) batch ls" "list_all int64_ok ls"
    by simp_all
  from list_all2_conj_split [OF assms(3)]
  have b: "list_all2 (\<lambda>s ids. tp (snd s) = Inr ids) batch idss"
    "list_all (list_all int64_ok) idss"
    by simp_all
  show "Collator tp lp batch = Inr (ls, concat idss, cumsum (butlast (0 # map length idss)))"
    by (rule Collator_success [OF assms(1) a(1) b(1) b(2) a(2)])
  show "length idss = length batch"
    using b(1) by (simp add: list_all2_lengthD)
  then show "idss \<noteq> []" using assms(1) by auto
qed

lemma nth_offsets_Suc:
  assumes "Suc i < length idss"
  shows "cumsum (butlast (0 # map length idss)) ! Suc i
         = cumsum (butlast (0 # map length idss)) ! i + length (idss ! i)"
proof -
  from assms have i: "i < length idss" by simp
  show ?thesis
    unfolding nth_offsets [OF assms] nth_offsets [OF i]
    using i by (simp add: take_Suc_conv_app_nth)
qed

subsection \<open>Shape of the offsets\<close>

text \<open>
  In the theorems about a collated batch, \<open>ls\<close> and \<open>idss\<close> are what the two pipelines
  return for the samples of the batch, in batch order, all within the int64 range. By
  \<open>Collator_Inr\<close> these are exactly the batches on which the collator returns.
\<close>

text \<open>
  C1. For every non-empty batch the collator returns offsets whose number is the number
  of samples, and the last offset plus the token count of the last sample is the length
  of the flattened texts.
\<close>

theorem Collator_offsets_length_and_end:
  assumes "batch \<noteq> []"
    and "list_all2 (\<lambda>s l. lp (fst s) = Inr l \<and> int64_ok l) batch ls"
    and "list_all2 (\<lambda>s ids. tp (snd s) = Inr ids \<and> list_all int64_ok ids) batch idss"
  shows "\<exists>labels texts offsets.
           Collator tp lp batch = Inr (labels, texts, offsets) \<and>
           length offsets = length batch \<and>
           last offsets + length (last idss) = length texts"
proof -
  note r = Collator_returns [OF assms]
  have "length (cumsum (butlast (0 # map length idss))) = length batch"
    using length_offsets [OF r(3)] r(2) by simp
  moreover have "last (cumsum (butlast (0 # map length idss))) + length (last idss)
                 = length (concat idss)"
    by (rule last_offsets [OF r(3)])
  ultimately show ?thesis using r(1) by blast
qed

theorem Collator_offsets_length_and_end_witness:
  "list_all2 (\<lambda>s l. LabelPipeline_imdb (fst s) = Inr l \<and> int64_ok l)
     [(LStr ''neg'', ''bad film''), (LStr ''pos'', ''a great film'')] [0, 1] \<and>
   list_all2 (\<lambda>s ids. TextPipeline example_vocab space_tokenizer (snd s) = Inr ids \<and>
                list_all int64_ok ids)
     [(LStr ''neg'', ''bad film''), (LStr ''pos'', ''a great film'')] [[3, 2], [0, 4, 2]] \<and>
   (\<exists>labels texts offsets.
      Collator (TextPipeline example_vocab space_tokenizer) LabelPipeline_imdb
        [(LStr ''neg'', ''bad film''), (LStr ''pos'', ''a great film'')]
        = Inr (labels, texts, offsets) \<and>
      length offsets = 2 \<and> last offsets + 3 = length texts)"
proof -
  let ?batch = "[(LStr ''neg'', ''bad film''), (LStr ''pos'', ''a great film'')]"
  have ls: "list_all2 (\<lambda>s l. LabelPipeline_imdb (fst s) = Inr l \<and> int64_ok l) ?batch [0, 1]"
    by (simp add: LabelPipeline_imdb_def int64_ok_def)
  have idss: "list_all2 (\<lambda>s ids. TextPipeline example_vocab space_tokenizer (snd s) = Inr ids \<and>
                list_all int64_ok ids) ?batch [[3, 2], [0, 4, 2]]"
    by (simp add: TextPipeline_def space_tokenizer_def Vocab_getitem_def example_vocab_def
        int64_ok_def)
  have "?batch \<noteq> []" by simp
  from Collator_offsets_length_and_end [OF this ls idss]
  obtain labels texts offsets where
    "Collator (TextPipeline example_vocab space_tokenizer) LabelPipeline_imdb ?batch
       = Inr (labels, texts, offsets)"
    "length offsets = length ?batch"
    "last offsets + length (last [[3, 2], [0, 4, 2 :: int]]) = length texts"
    by blast
  then have "\<exists>labels texts offsets.
      Collator (TextPipeline example_vocab space_tokenizer) LabelPipeline_imdb ?batch
        = Inr (labels, texts, offsets) \<and>
      length offsets = 2 \<and> last offsets + 3 = length texts"
    by simp
  with ls idss show ?thesis by blast
qed

subsection \<open>No truncation, no padding\<close>

text \<open>
  C6. For every non-empty batch the flattened texts are exactly the concatenation, in
  batch order, of the id sequences of the samples, and the span that the offsets delimit
  for sample \<open>i\<close> is the id sequence of sample \<open>i\<close>, unchanged.
\<close>

theorem Collator_texts_concat_spans:
  assumes "batch \<noteq> []"
    and "list_all2 (\<lambda>s l. lp (fst s) = Inr l \<and> int64_ok l) batch ls"
    and "list_all2 (\<lambda>s ids. tp (snd s) = Inr ids \<and> list_all int64_ok ids) batch idss"
  shows "\<exists>labels offsets.
           Collator tp lp batch = Inr (labels, concat idss, offsets) \<and>
           (\<forall>i<length batch. span (concat idss) offsets i = idss ! i)"
proof -
  note r = Collator_returns [OF assms]
  let ?offsets = "cumsum (butlast (0 # map length idss))"
  have "span (concat idss) ?offsets i = idss ! i" if "i < length batch" for i
  proof (rule span_offsets)
    show "i < length idss" using that r(2) by simp
    show "length ?offsets = length idss" by (rule length_offsets [OF r(3)])
    show "?offsets ! j = length (concat (take j idss))" if "j < length idss" for j
      by (rule nth_offsets [OF that])
  qed
  then show ?thesis using r(1) by blast
qed

theorem Collator_texts_concat_spans_witness:
  "list_all2 (\<lambda>s l. LabelPipeline_ag (fst s) = Inr l \<and> int64_ok l)
     [(LInt 3, ''great film''), (LStr ''1'', ''''), (LStr ''4'', ''bad film bad'')] [2, 0, 3] \<and>
   list_all2 (\<lambda>s ids. TextPipeline example_vocab space_tokenizer (snd s) = Inr ids \<and>
                list_all int64_ok ids)
     [(LInt 3, ''great film''), (LStr ''1'', ''''), (LStr ''4'', ''bad film bad'')]
     [[4, 2], [], [3, 2, 3]] \<and>
   (\<exists>labels offsets.
      Collator (TextPipeline example_vocab space_tokenizer) LabelPipeline_ag
        [(LInt 3, ''great film''), (LStr ''1'', ''''), (LStr ''4'', ''bad film bad'')]
        = Inr (labels, [4, 2, 3, 2, 3], offsets) \<and>
      span [4, 2, 3, 2, 3 :: int] offsets 0 = [4, 2] \<and>
      span [4, 2, 3, 2, 3 :: int] offsets 1 = [] \<and>
      span [4, 2, 3, 2, 3 :: int] offsets 2 = [3, 2, 3])"
proof -
  let ?batch = "[(LInt 3, ''great film''), (LStr ''1'', ''''), (LStr ''4'', ''bad film bad'')]"
  have ls: "list_all2 (\<lambda>s l. LabelPipeline_ag (fst s) = Inr l \<and> int64_ok l) ?batch [2, 0, 3]"
    by (simp add: LabelPipeline_ag_def int_of_string_def strip_def is_space_def is_digit_def
        digit_of_def int64_ok_def)
  have idss: "list_all2 (\<lambda>s ids. TextPipeline example_vocab space_tokenizer (snd s) = Inr ids \<and>
                list_all int64_ok ids) ?batch [[4, 2], [], [3, 2, 3]]"
    by (simp add: TextPipeline_def space_tokenizer_def Vocab_getitem_def example_vocab_def
        int64_ok_def)
  have "?batch \<noteq> []" by simp
  from Collator_texts_concat_spans [OF this ls idss]
  obtain labels offsets where
    c: "Collator (TextPipeline example_vocab space_tokenizer) LabelPipeline_ag ?batch
       = Inr (labels, concat [[4, 2], [], [3, 2, 3]], offsets)" and
    sp: "\<And>i. i < length ?batch \<Longrightarrow>
         span (concat [[4, 2], [], [3, 2, 3 :: int]]) offsets i = [[4, 2], [], [3, 2, 3]] ! i"
    by blast
  from sp [of 0] sp [of 1] sp [of 2] c
  have "\<exists>labels offsets.
      Collator (TextPipeline example_vocab space_tokenizer) LabelPipeline_ag ?batch
        = Inr (labels, [4, 2, 3, 2, 3], offsets) \<and>
      span [4, 2, 3, 2, 3 :: int] offsets 0 = [4, 2] \<and>
      span [4, 2, 3, 2, 3 :: int] offsets 1 = [] \<and>
      span [4, 2, 3, 2, 3 :: int] offsets 2 = [3, 2, 3]"
    by simp
  with ls idss show ?thesis by blast
qed

subsection \<open>Order of the offsets\<close>

text \<open>
  C3. The offsets of a collated batch are non-decreasing. The offset of the
  sample after sample \<open>i\<close> is strictly greater than that of sample \<open>i\<close> exactly when
  sample \<open>i\<close> has at least one token, so the offsets are strictly increasing when every
  sample but the last has a token. The span of the last sample runs from the last offset
  to the end of the flattened texts.
\<close>

theorem Collator_offsets_nondecreasing:
  assumes "batch \<noteq> []"
    and "list_all2 (\<lambda>s l. lp (fst s) = Inr l \<and> int64_ok l) batch ls"
    and "list_all2 (\<lambda>s ids. tp (snd s) = Inr ids \<and> list_all int64_ok ids) batch idss"
  shows "\<exists>labels texts offsets.
           Collator tp lp batch = Inr (labels, texts, offsets) \<and>
           sorted offsets \<and>
           (\<forall>i. Suc i < length batch \<longrightarrow> (offsets ! i < offsets ! Suc i \<longleftrightarrow> idss ! i \<noteq> [])) \<and>
           (list_all (\<lambda>ids. ids \<noteq> []) (butlast idss) \<longrightarrow> sorted_wrt (<) offsets) \<and>
           last offsets + length (last idss) = length texts"
proof -
  note r = Collator_returns [OF assms]
  let ?offsets = "cumsum (butlast (0 # map length idss))"
  have len: "length ?offsets = length idss"
    by (rule length_offsets [OF r(3)])
  have step: "?offsets ! Suc i = ?offsets ! i + length (idss ! i)" if "Suc i < length idss" for i
    by (rule nth_offsets_Suc [OF that])
  have "sorted ?offsets"
    unfolding sorted_iff_nth_Suc using step len by simp
  moreover have "\<forall>i. Suc i < length batch \<longrightarrow> (?offsets ! i < ?offsets ! Suc i \<longleftrightarrow> idss ! i \<noteq> [])"
    using step r(2) by simp
  moreover have "sorted_wrt (<) ?offsets" if ne: "list_all (\<lambda>ids. ids \<noteq> []) (butlast idss)"
  proof -
    have "idss ! i \<noteq> []" if "Suc i < length idss" for i
    proof -
      from that have "i < length (butlast idss)" by simp
      with ne have "butlast idss ! i \<noteq> []" by (simp add: list_all_length)
      with \<open>i < length (butlast idss)\<close> show ?thesis by (simp add: nth_butlast)
    qed
    then have "\<forall>i. Suc i < length ?offsets \<longrightarrow> ?offsets ! i < ?offsets ! Suc i"
      using step len by simp
    moreover have "transp ((<) :: nat \<Rightarrow> nat \<Rightarrow> bool)" by (rule transp_on_less)
    ultimately show ?thesis by (simp add: sorted_wrt_iff_nth_Suc_transp)
  qed
  moreover have "last ?offsets + length (last idss) = length (concat idss)"
    by (rule last_offsets [OF r(3)])
  ultimately show ?thesis using r(1) by blast
qed

theorem Collator_offsets_nondecreasing_witness:
  "list_all2 (\<lambda>s l. LabelPipeline_imdb (fst s) = Inr l \<and> int64_ok l)
     [(LStr ''neg'', ''bad film''), (LStr ''neg'', ''''), (LStr ''pos'', ''great'')] [0, 0, 1] \<and>
   list_all2 (\<lambda>s ids. TextPipeline example_vocab space_tokenizer (snd s) = Inr ids \<and>
                list_all int64_ok ids)
     [(LStr ''neg'', ''bad film''), (LStr ''neg'', ''''), (LStr ''pos'', ''great'')]
     [[3, 2], [], [4]] \<and>
   (\<exists>labels texts offsets.
      Collator (TextPipeline example_vocab space_tokenizer) LabelPipeline_imdb
        [(LStr ''neg'', ''bad film''), (LStr ''neg'', ''''), (LStr ''pos'', ''great'')]
        = Inr (labels, texts, offsets) \<and>
      sorted offsets \<and> offsets ! 0 < offsets ! 1 \<and> \<not> offsets ! 1 < offsets ! 2 \<and>
      last offsets + 1 = length texts)"
proof -
  let ?batch = "[(LStr ''neg'', ''bad film''), (LStr ''neg'', ''''), (LStr ''pos'', ''great'')]"
  have ls: "list_all2 (\<lambda>s l. LabelPipeline_imdb (fst s) = Inr l \<and> int64_ok l) ?batch [0, 0, 1]"
    by (simp add: LabelPipeline_imdb_def int64_ok_def)
  have idss: "list_all2 (\<lambda>s ids. TextPipeline example_vocab space_tokenizer (snd s) = Inr ids \<and>
                list_all int64_ok ids) ?batch [[3, 2], [], [4]]"
    by (simp add: TextPipeline_def space_tokenizer_def Vocab_getitem_def example_vocab_def
        int64_ok_def)
  have "?batch \<noteq> []" by simp
  from Collator_offsets_nondecreasing [OF this ls idss]
  obtain labels texts offsets where
    c: "Collator (TextPipeline example_vocab space_tokenizer) LabelPipeline_imdb ?batch
          = Inr (labels, texts, offsets)" and
    s: "sorted offsets" and
    st: "\<And>i. Suc i < length ?batch \<Longrightarrow>
           (offsets ! i < offsets ! Suc i \<longleftrightarrow> [[3, 2], [], [4 :: int]] ! i \<noteq> [])" and
    e: "last offsets + length (last [[3, 2], [], [4 :: int]]) = length texts"
    by blast
  from st [of 0] st [of 1] e
  have "offsets ! 0 < offsets ! 1 \<and> \<not> offsets ! 1 < offsets ! 2 \<and>
        last offsets + 1 = length texts"
    by (simp add: numeral_2_eq_2)
  with c s ls idss show ?thesis by blast
qed

text \<open>
  A sample without tokens shares its offset with the sample after it: with the empty
  text first, the offsets are \<open>[0, 0]\<close>, which is not strictly increasing.
\<close>

theorem Collator_offsets_repeat_counterexample:
  "Collator (TextPipeline example_vocab space_tokenizer) LabelPipeline_imdb
     [(LStr ''neg'', ''''), (LStr ''pos'', ''great film'')] = Inr ([0, 1], [4, 2], [0, 0]) \<and>
   \<not> sorted_wrt (<) [0, 0 :: nat]"
  by (simp add: Collator_def TextPipeline_def LabelPipeline_imdb_def space_tokenizer_def
      Vocab_getitem_def example_vocab_def tensor_int64_def int64_ok_def cumsum_def)

subsection \<open>The two-sample sentiment batch\<close>

text \<open>
  C2. With the sentiment label pipeline and a tokenizer that splits each of the two texts
  into two tokens, the batch \<open>[("neg", "bad film"), ("pos", "great film")]\<close> collates to
  the labels \<open>[0, 1]\<close>, a flattened id tensor of length 4 and the offsets \<open>[0, 2]\<close>.
\<close>

theorem Collator_imdb_two_samples:
  assumes "length (tokenizer ''bad film'') = 2"
    and "length (tokenizer ''great film'') = 2"
    and "list_all (\<lambda>token. int64_ok (int (Vocab_getitem vocab token)))
           (tokenizer ''bad film'' @ tokenizer ''great film'')"
  shows "\<exists>texts.
           Collator (TextPipeline vocab tokenizer) LabelPipeline_imdb
             [(LStr ''neg'', ''bad film''), (LStr ''pos'', ''great film'')]
             = Inr ([0, 1], texts, [0, 2]) \<and>
           length texts = 4"
proof -
  let ?batch = "[(LStr ''neg'', ''bad film''), (LStr ''pos'', ''great film'')]"
  let ?enc = "\<lambda>tx. map (\<lambda>token. int (Vocab_getitem vocab token)) (tokenizer tx)"
  have ls: "list_all2 (\<lambda>s l. LabelPipeline_imdb (fst s) = Inr l \<and> int64_ok l) ?batch [0, 1]"
    by (simp add: LabelPipeline_imdb_def int64_ok_def)
  have idss: "list_all2 (\<lambda>s ids. TextPipeline vocab tokenizer (snd s) = Inr ids \<and>
                list_all int64_ok ids) ?batch [?enc ''bad film'', ?enc ''great film'']"
    using assms(3) by (simp add: TextPipeline_def list_all_iff)
  have "?batch \<noteq> []" by simp
  from Collator_returns(1) [OF this ls idss]
  show ?thesis using assms(1,2) by (simp add: cumsum_def)
qed

theorem Collator_imdb_two_samples_witness:
  "length (space_tokenizer ''bad film'') = 2 \<and>
   length (space_tokenizer ''great film'') = 2 \<and>
   Collator (TextPipeline example_vocab space_tokenizer) LabelPipeline_imdb
     [(LStr ''neg'', ''bad film''), (LStr ''pos'', ''great film'')]
     = Inr ([0, 1], [3, 2, 4, 2], [0, 2])"
proof -
  have a: "length (space_tokenizer ''bad film'') = 2"
    and b: "length (space_tokenizer ''great film'') = 2"
    by (simp_all add: space_tokenizer_def)
  have c: "list_all (\<lambda>token. int64_ok (int (Vocab_getitem example_vocab token)))
             (space_tokenizer ''bad film'' @ space_tokenizer ''great film'')"
    by (simp add: space_tokenizer_def Vocab_getitem_def example_vocab_def int64_ok_def)
  from Collator_imdb_two_samples [OF a b c]
  obtain texts where
    t: "Collator (TextPipeline example_vocab space_tokenizer) LabelPipeline_imdb
          [(LStr ''neg'', ''bad film''), (LStr ''pos'', ''great film'')]
          = Inr ([0, 1], texts, [0, 2])"
    by blast
  have "Collator (TextPipeline example_vocab space_tokenizer) LabelPipeline_imdb
          [(LStr ''neg'', ''bad film''), (LStr ''pos'', ''great film'')]
          = Inr ([0, 1], [3, 2, 4, 2], [0, 2])"
    by (simp add: Collator_def TextPipeline_def LabelPipeline_imdb_def space_tokenizer_def
        Vocab_getitem_def example_vocab_def tensor_int64_def int64_ok_def cumsum_def)
  with a b show ?thesis by blast
qed

subsection \<open>Unknown tokens\<close>

text \<open>
  C4. A token that the vocabulary does not contain is encoded by the text pipeline as the
  unknown-token id, wherever it stands in the text, and the pipeline returns.
\<close>

theorem TextPipeline_unknown_token:
  assumes "stoi vocab token = None"
    and "i < length (tokenizer tx)"
    and "tokenizer tx ! i = token"
  shows "\<exists>ids. TextPipeline vocab tokenizer tx = Inr ids \<and>
           length ids = length (tokenizer tx) \<and>
           ids ! i = int (unk_index vocab)"
  using assms by (simp add: TextPipeline_def Vocab_getitem_def)

theorem TextPipeline_unknown_token_witness:
  "stoi example_vocab ''dull'' = None \<and>
   space_tokenizer ''a dull film'' ! 1 = ''dull'' \<and>
   (\<exists>ids. TextPipeline example_vocab space_tokenizer ''a dull film'' = Inr ids \<and>
      length ids = 3 \<and> ids ! 1 = 0)"
proof -
  have a: "stoi example_vocab ''dull'' = None"
    by (simp add: example_vocab_def)
  have b: "1 < length (space_tokenizer ''a dull film'')"
    and c: "space_tokenizer ''a dull film'' ! 1 = ''dull''"
    and d: "length (space_tokenizer ''a dull film'') = 3"
    by (simp_all add: space_tokenizer_def)
  from TextPipeline_unknown_token
    [where vocab = example_vocab and tokenizer = space_tokenizer and tx = "''a dull film''"
       and i = 1 and token = "''dull''", OF a b c]
  have "\<exists>ids. TextPipeline example_vocab space_tokenizer ''a dull film'' = Inr ids \<and>
      length ids = 3 \<and> ids ! 1 = 0"
    by (simp add: d example_vocab_def)
  with a c show ?thesis by blast
qed

subsection \<open>Reading decimal numerals\<close>

lemma of_char_digit_char: "d < 10 \<Longrightarrow> (of_char (digit_char d) :: nat) = 48 + d"
  by (simp add: digit_char_def)

lemma is_digit_digit_char: "d < 10 \<Longrightarrow> is_digit (digit_char d)"
  by (simp add: is_digit_def of_char_digit_char)

lemma digit_of_digit_char: "d < 10 \<Longrightarrow> digit_of (digit_char d) = int d"
  by (simp add: digit_of_def of_char_digit_char)

lemma is_digit_not_underscore: "is_digit c \<Longrightarrow> c \<noteq> CHR ''_''"
  by (auto simp: is_digit_def)

lemma is_digit_not_sign: "is_digit c \<Longrightarrow> c \<noteq> CHR ''-'' \<and> c \<noteq> CHR ''+''"
  by (auto simp: is_digit_def)

lemma is_digit_not_space: "is_digit c \<Longrightarrow> \<not> is_space c"
  by (auto simp: is_digit_def is_space_def Let_def)

lemma digits_value_snoc:
  assumes "ds \<noteq> []" and "list_all is_digit ds" and "is_digit c"
  shows "digits_value acc (ds @ [c])
         = map_option (\<lambda>v. 10 * v + digit_of c) (digits_value acc ds)"
  using assms
proof (induction acc ds rule: digits_value.induct)
  case (1 acc)
  then show ?case by simp
next
  case (2 acc a)
  then show ?case by (simp add: is_digit_not_underscore)
next
  case (3 acc a b rest)
  from "3.prems" have a: "is_digit a" and b: "is_digit b" and r: "list_all is_digit (b # rest)"
    by simp_all
  from b have nb: "b \<noteq> CHR ''_''" by (rule is_digit_not_underscore)
  have "digits_value (10 * acc + digit_of a) ((b # rest) @ [c])
        = map_option (\<lambda>v. 10 * v + digit_of c) (digits_value (10 * acc + digit_of a) (b # rest))"
    using a nb r "3.prems"(3) by (intro "3.IH"(2)) simp_all
  then show ?case using a nb by simp
qed

lemma decimal_small: "n < 10 \<Longrightarrow> decimal n = [digit_char n]"
  by (subst decimal.simps) simp

lemma decimal_large:
  "\<not> n < 10 \<Longrightarrow> decimal n = decimal (n div 10) @ [digit_char (n mod 10)]"
  by (subst decimal.simps) simp

lemma decimal_digits: "decimal n \<noteq> [] \<and> list_all is_digit (decimal n)"
proof (induction n rule: decimal.induct)
  case (1 n)
  show ?case
  proof (cases "n < 10")
    case True
    then show ?thesis by (simp add: decimal_small is_digit_digit_char)
  next
    case False
    with 1 have "list_all is_digit (decimal (n div 10))" by simp
    moreover have "is_digit (digit_char (n mod 10))"
      by (rule is_digit_digit_char) simp
    ultimately show ?thesis
      using False by (simp add: decimal_large)
  qed
qed

lemma digits_value_decimal: "digits_value 0 (decimal n) = Some (int n)"
proof (induction n rule: decimal.induct)
  case (1 n)
  show ?case
  proof (cases "n < 10")
    case True
    then show ?thesis
      by (simp add: decimal_small is_digit_digit_char digit_of_digit_char)
  next
    case False
    with 1 have ih: "digits_value 0 (decimal (n div 10)) = Some (int (n div 10))" by simp
    have d: "is_digit (digit_char (n mod 10))"
      by (rule is_digit_digit_char) simp
    have "digits_value 0 (decimal (n div 10) @ [digit_char (n mod 10)])
          = Some (10 * int (n div 10) + int (n mod 10))"
      using decimal_digits [of "n div 10"] d
      by (simp add: digits_value_snoc ih digit_of_digit_char)
    moreover have "10 * int (n div 10) + int (n mod 10) = int n"
      by (simp add: zdiv_int zmod_int)
    ultimately show ?thesis
      using False by (simp add: decimal_large)
  qed
qed

lemma dropWhile_space_digits:
  "ds \<noteq> [] \<Longrightarrow> list_all is_digit ds \<Longrightarrow> dropWhile is_space ds = ds"
  by (cases ds) (simp_all add: is_digit_not_space)

lemma strip_padded_digits:
  assumes "ds \<noteq> []" and "list_all is_digit ds"
    and "list_all is_space pre" and "list_all is_space post"
  shows "strip (pre @ ds @ post) = ds"
proof -
  have "dropWhile is_space (pre @ ds @ post) = dropWhile is_space (ds @ post)"
    using assms(3) by (intro dropWhile_append2) (simp add: list_all_iff)
  also have "\<dots> = ds @ post"
    using assms(1,2) by (cases ds) (simp_all add: is_digit_not_space)
  finally have "rev (dropWhile is_space (pre @ ds @ post)) = rev post @ rev ds"
    by simp
  moreover have "dropWhile is_space (rev post @ rev ds) = dropWhile is_space (rev ds)"
    using assms(4) by (intro dropWhile_append2) (simp add: list_all_iff)
  moreover have "dropWhile is_space (rev ds) = rev ds"
    using assms(1,2) by (intro dropWhile_space_digits) (simp_all add: list_all_iff)
  ultimately show ?thesis by (simp add: strip_def)
qed

lemma py_int_padded_decimal:
  assumes "list_all is_space pre" and "list_all is_space post"
  shows "py_int (LStr (pre @ decimal n @ post)) = Inr (int n)"
proof -
  note d = decimal_digits [of n]
  from d have s: "strip (pre @ decimal n @ post) = decimal n"
    using assms by (intro strip_padded_digits) simp_all
  from d obtain c cs where cs: "decimal n = c # cs" and c: "is_digit c"
    by (cases "decimal n") auto
  from digits_value_decimal [of n] cs have "digits_value 0 (c # cs) = Some (int n)"
    by simp
  then have "int_of_string (pre @ decimal n @ post) = Inr (int n)"
    unfolding int_of_string_def s using is_digit_not_sign [OF c] by (simp add: cs)
  then show ?thesis by simp
qed

subsection \<open>Label pipelines\<close>

text \<open>
  C5. For a label of the topic dataset that represents an integer \<open>n\<close> with
  \<open>1 \<le> n \<le> num_classes\<close>, the topic label pipeline returns \<open>n - 1\<close>, which lies in
  \<open>[0, num_classes)\<close>. This holds of the decimal numeral of \<open>n\<close>, with or without
  whitespace around it, of the integer \<open>n\<close> itself, and of every other label that
  \<^verbatim>\<open>int\<close> reads as \<open>n\<close>; a label that \<^verbatim>\<open>int\<close> rejects is rejected by the pipeline.
\<close>

theorem LabelPipeline_ag_range:
  assumes "1 \<le> n" and "n \<le> num_classes"
    and "list_all is_space pre" and "list_all is_space post"
  shows "LabelPipeline_ag (LStr (pre @ decimal (nat n) @ post)) = Inr (n - 1) \<and>
         LabelPipeline_ag (LInt n) = Inr (n - 1) \<and>
         (py_int label = Inr n \<longrightarrow> LabelPipeline_ag label = Inr (n - 1)) \<and>
         (py_int label = Inl e \<longrightarrow> LabelPipeline_ag label = Inl e) \<and>
         0 \<le> n - 1 \<and> n - 1 < num_classes"
proof -
  have "py_int (LStr (pre @ decimal (nat n) @ post)) = Inr (int (nat n))"
    using assms(3,4) by (rule py_int_padded_decimal)
  with assms(1) have "py_int (LStr (pre @ decimal (nat n) @ post)) = Inr n"
    by simp
  then show ?thesis
    using assms(1,2) by (simp add: LabelPipeline_ag_def)
qed

theorem LabelPipeline_ag_range_witness:
  "LabelPipeline_ag (LStr ''1'') = Inr 0 \<and>
   LabelPipeline_ag (LStr ''4'') = Inr 3 \<and>
   LabelPipeline_ag (LStr '' 3 '') = Inr 2 \<and>
   LabelPipeline_ag (LInt 2) = Inr 1 \<and>
   py_int (LStr ''+0_3'') = Inr 3 \<and> LabelPipeline_ag (LStr ''+0_3'') = Inr 2 \<and>
   py_int (LStr [CHR 0x1C, CHR ''4'']) = Inl ValueError \<and>
   LabelPipeline_ag (LStr [CHR 0x1C, CHR ''4'']) = Inl ValueError"
proof -
  have d: "decimal 1 = ''1''" "decimal 4 = ''4''" "decimal 3 = ''3''"
    by code_simp+
  have sp: "list_all is_space '' ''" "list_all is_space []"
    by (simp_all add: is_space_def)
  have p: "py_int (LStr ''+0_3'') = Inr 3"
    "py_int (LStr [CHR 0x1C, CHR ''4'']) = Inl ValueError"
    by (simp_all add: int_of_string_def strip_def is_space_def is_digit_def digit_of_def)
  from LabelPipeline_ag_range [of 1 4 "[]" "[]" "LStr ''+0_3''" ValueError]
    LabelPipeline_ag_range [of 4 4 "[]" "[]" "LStr [CHR 0x1C, CHR ''4'']" ValueError]
    LabelPipeline_ag_range [of 3 4 "'' ''" "'' ''" "LStr ''+0_3''" ValueError]
    LabelPipeline_ag_range [of 2 4 "[]" "[]" "LStr ''+0_3''" ValueError]
  show ?thesis using d sp p by simp
qed

lemma py_int_examples:
  "py_int (LStr ''1__0'') = Inl ValueError" "py_int (LStr ''_10'') = Inl ValueError"
  "py_int (LStr ''10_'') = Inl ValueError" "py_int (LStr ''- 1'') = Inl ValueError"
  "py_int (LStr []) = Inl ValueError"  "py_int (LStr ''-12'') = Inr (-12)"
  "py_int (LStr ''1_000'') = Inr 1000" "py_int (LStr ''+'') = Inl ValueError"
  "py_int (LStr ''World'') = Inl ValueError"
  "py_int (LStr [CHR ''4'', CHR 0x1F]) = Inl ValueError"
  "py_int (LStr [CHR 0x1D, CHR ''4'']) = Inl ValueError"
  "py_int (LStr [CHR 0xA0, CHR ''4'', CHR 0x85]) = Inr 4"
  "py_int (LStr [CHR 0x09, CHR ''4'', CHR 0x0A]) = Inr 4"
  by (simp_all add: int_of_string_def strip_def is_space_def is_digit_def digit_of_def)

text \<open>
  C10. The sentiment label pipeline returns 0 for the label \<^verbatim>\<open>"neg"\<close> and for no other
  label; every other label value, whatever it is, yields class 1 and is never rejected.
\<close>

theorem LabelPipeline_imdb_neg_only:
  "(LabelPipeline_imdb label = Inr 0 \<longleftrightarrow> label = LStr ''neg'') \<and>
   (label \<noteq> LStr ''neg'' \<longrightarrow> LabelPipeline_imdb label = Inr 1)"
  by (simp add: LabelPipeline_imdb_def)

theorem LabelPipeline_imdb_neg_only_witness:
  "LStr ''negative'' \<noteq> LStr ''neg'' \<and> LabelPipeline_imdb (LStr ''negative'') = Inr 1 \<and>
   LInt 0 \<noteq> LStr ''neg'' \<and> LabelPipeline_imdb (LInt 0) = Inr 1 \<and>
   LabelPipeline_imdb (LStr ''neg'') = Inr 0"
  using LabelPipeline_imdb_neg_only [of "LStr ''negative''"]
    LabelPipeline_imdb_neg_only [of "LInt 0"]
    LabelPipeline_imdb_neg_only [of "LStr ''neg''"]
  by simp

subsection \<open>The empty batch\<close>

text \<open>
  C9. On an empty batch the collator does not return an encoded batch: the loop runs
  zero times, the list of text tensors is empty, and concatenating it raises.
\<close>

theorem Collator_empty_batch_raises:
  "Collator text_pipeline label_pipeline [] = Inl CatEmptyList"
  by (simp add: Collator_def tensor_int64_def)

theorem Collator_empty_batch_raises_witness:
  "Collator (TextPipeline example_vocab space_tokenizer) LabelPipeline_imdb []
     = Inl CatEmptyList"
  using Collator_empty_batch_raises [of "TextPipeline example_vocab space_tokenizer" LabelPipeline_imdb]
  by simp

subsection \<open>The epoch driver\<close>

lemma epoch_update_cases:
  "epoch_update s accu_val =
     (case total_accu s of
        None \<Rightarrow> s\<lparr>total_accu := Some accu_val\<rparr>
      | Some best \<Rightarrow> if accu_val < best
                     then s\<lparr>sched_steps := Suc (sched_steps s), lr := lr s * gamma\<rparr>
                     else s\<lparr>total_accu := Some accu_val\<rparr>)"
  by (simp add: epoch_update_def scheduler_step_def split: option.splits)

lemma lr_epoch_update:
  "lr s = LR * gamma ^ sched_steps s \<Longrightarrow>
   lr (epoch_update s accu_val) = LR * gamma ^ sched_steps (epoch_update s accu_val)"
  by (simp add: epoch_update_cases split: option.splits)

lemma lr_run_epochs_from:
  "lr s = LR * gamma ^ sched_steps s \<Longrightarrow>
   lr (run_epochs s accs) = LR * gamma ^ sched_steps (run_epochs s accs)"
proof (induction accs arbitrary: s)
  case Nil
  then show ?case by simp
next
  case (Cons a accs)
  from lr_epoch_update [OF Cons.prems, of a] show ?case
    by (simp add: Cons.IH)
qed

lemma lr_run_epochs:
  "lr (run_epochs driver_init accs) = LR * gamma ^ sched_steps (run_epochs driver_init accs)"
  by (rule lr_run_epochs_from) (simp add: driver_init_def)

lemma Max_insert_below:
  fixes x y :: real
  assumes "finite S" and "x \<le> y"
  shows "Max (insert x (insert y S)) = Max (insert y S)"
proof -
  have "y \<le> Max (insert y S)"
    using assms(1) by (intro Max_ge) simp_all
  with assms(2) have "x \<le> Max (insert y S)" by simp
  moreover have "Max (insert x (insert y S)) = max x (Max (insert y S))"
    using assms(1) by (intro Max_insert) simp_all
  ultimately show ?thesis by (simp add: max_absorb2)
qed

lemma run_epochs_best_from:
  "total_accu s = Some best \<Longrightarrow>
   total_accu (run_epochs s accs) = Some (Max (insert best (set accs)))"
proof (induction accs arbitrary: s best)
  case Nil
  then show ?case by simp
next
  case (Cons a accs)
  show ?case
  proof (cases "a < best")
    case True
    with Cons.prems have "total_accu (epoch_update s a) = Some best"
      by (simp add: epoch_update_cases)
    from Cons.IH [OF this]
    have "total_accu (run_epochs s (a # accs)) = Some (Max (insert best (set accs)))"
      by simp
    moreover have "Max (insert a (insert best (set accs))) = Max (insert best (set accs))"
      using True by (intro Max_insert_below) simp_all
    ultimately show ?thesis by (simp add: insert_commute [of best a])
  next
    case False
    with Cons.prems have "total_accu (epoch_update s a) = Some a"
      by (simp add: epoch_update_cases)
    from Cons.IH [OF this]
    have "total_accu (run_epochs s (a # accs)) = Some (Max (insert a (set accs)))"
      by simp
    moreover have "Max (insert best (insert a (set accs))) = Max (insert a (set accs))"
      using False by (intro Max_insert_below) simp_all
    ultimately show ?thesis by simp
  qed
qed

lemma run_epochs_best:
  "accs \<noteq> [] \<Longrightarrow> total_accu (run_epochs driver_init accs) = Some (Max (set accs))"
proof (cases accs)
  case Nil
  assume "accs \<noteq> []"
  with Nil show ?thesis by simp
next
  case (Cons a rest)
  have "total_accu (epoch_update driver_init a) = Some a"
    by (simp add: epoch_update_cases driver_init_def)
  from run_epochs_best_from [OF this, of rest] Cons show ?thesis by simp
qed

text \<open>
  C7. After the validation pass of an epoch: if the validation accuracy is strictly
  lower than the best seen so far, the learning-rate scheduler steps, which decays the
  learning rate (it is multiplied by \<open>gamma\<close>, and a positive rate becomes strictly
  smaller), and the best is kept; otherwise (no accuracy seen yet, or the accuracy
  equals or exceeds the best) the scheduler does not step, the learning rate stays, and
  the accuracy is recorded. What is recorded is the best accuracy seen so far, and the
  learning rate of the driver is always positive: \<open>LR\<close> times \<open>gamma\<close> to the number of
  scheduler steps.
\<close>

theorem epoch_update_strictly_lower:
  "(total_accu s = Some best \<and> accu_val < best \<longrightarrow>
      epoch_update s accu_val = s\<lparr>sched_steps := Suc (sched_steps s), lr := lr s * gamma\<rparr> \<and>
      (0 < lr s \<longrightarrow> lr (epoch_update s accu_val) < lr s)) \<and>
   (total_accu s = None \<or> (total_accu s = Some best \<and> best \<le> accu_val) \<longrightarrow>
      epoch_update s accu_val = s\<lparr>total_accu := Some accu_val\<rparr>) \<and>
   (accs \<noteq> [] \<longrightarrow> total_accu (run_epochs driver_init accs) = Some (Max (set accs))) \<and>
   lr (run_epochs driver_init accs) = LR * gamma ^ sched_steps (run_epochs driver_init accs) \<and>
   0 < lr (run_epochs driver_init accs)"
proof -
  have pos: "0 < LR * gamma ^ k" for k
    by (simp add: LR_def gamma_def)
  have "0 < lr (run_epochs driver_init accs)"
    unfolding lr_run_epochs by (rule pos)
  moreover have "lr s * gamma < lr s" if "0 < lr s"
    using that by (simp add: gamma_def)
  ultimately show ?thesis
    using run_epochs_best [of accs] lr_run_epochs [of accs]
    by (auto simp: epoch_update_cases)
qed

theorem epoch_update_strictly_lower_witness:
  "epoch_update \<lparr>total_accu = Some (9/10), sched_steps = 0, lr = 5\<rparr> (8/10)
     = \<lparr>total_accu = Some (9/10), sched_steps = 1, lr = 1/2\<rparr> \<and>
   epoch_update \<lparr>total_accu = Some (9/10), sched_steps = 0, lr = 5\<rparr> (9/10)
     = \<lparr>total_accu = Some (9/10), sched_steps = 0, lr = 5\<rparr> \<and>
   epoch_update \<lparr>total_accu = Some (8/10), sched_steps = 0, lr = 5\<rparr> (9/10)
     = \<lparr>total_accu = Some (9/10), sched_steps = 0, lr = 5\<rparr> \<and>
   epoch_update \<lparr>total_accu = None, sched_steps = 0, lr = 5\<rparr> (8/10)
     = \<lparr>total_accu = Some (8/10), sched_steps = 0, lr = 5\<rparr> \<and>
   total_accu (run_epochs driver_init [83/100, 87/100, 86/100]) = Some (87/100) \<and>
   sched_steps (run_epochs driver_init [83/100, 87/100, 86/100]) = 1 \<and>
   lr (run_epochs driver_init [83/100, 87/100, 86/100]) = 1/2"
proof -
  define r where "r = run_epochs driver_init [83/100, 87/100, 86/100]"
  let ?s = "\<lparr>total_accu = Some (9/10), sched_steps = 0, lr = 5\<rparr>"
  have m: "Max (set [83/100, 87/100, 86/100 :: real]) = 87/100" by simp
  have st: "sched_steps r = 1"
    unfolding r_def by (simp add: epoch_update_cases driver_init_def)
  from epoch_update_strictly_lower [of ?s "9/10" "8/10" "[83/100, 87/100, 86/100]", folded r_def]
  have lower: "epoch_update ?s (8/10) = \<lparr>total_accu = Some (9/10), sched_steps = 1, lr = 1/2\<rparr>"
    and best: "total_accu r = Some (Max (set [83/100, 87/100, 86/100]))"
    and rate: "lr r = LR * gamma ^ sched_steps r"
    by (simp_all add: gamma_def)
  from epoch_update_strictly_lower [of ?s "9/10" "9/10" "[]"]
  have equal: "epoch_update ?s (9/10) = ?s"
    by simp
  from epoch_update_strictly_lower
    [of "\<lparr>total_accu = Some (8/10), sched_steps = 0, lr = 5\<rparr>" "8/10" "9/10" "[]"]
  have higher: "epoch_update \<lparr>total_accu = Some (8/10), sched_steps = 0, lr = 5\<rparr> (9/10) = ?s"
    by simp
  from epoch_update_strictly_lower
    [of "\<lparr>total_accu = None, sched_steps = 0, lr = 5\<rparr>" "0" "8/10" "[]"]
  have first: "epoch_update \<lparr>total_accu = None, sched_steps = 0, lr = 5\<rparr> (8/10)
               = \<lparr>total_accu = Some (8/10), sched_steps = 0, lr = 5\<rparr>"
    by simp
  from best m have "total_accu r = Some (87/100)" by simp
  moreover from rate st have "lr r = 1/2" by (simp add: LR_def gamma_def)
  ultimately show ?thesis
    using lower equal higher first st unfolding r_def by blast
qed

text \<open>
  An epoch whose validation accuracy equals the best seen so far has not improved on
  it, and the scheduler does not step: the learning rate stays what it was.
\<close>

theorem epoch_update_equal_counterexample:
  "total_accu (run_epochs driver_init [9/10]) = Some (9/10) \<and>
   \<not> ((9/10 :: real) > 9/10) \<and>
   sched_steps (epoch_update (run_epochs driver_init [9/10]) (9/10))
     = sched_steps (run_epochs driver_init [9/10]) \<and>
   lr (epoch_update (run_epochs driver_init [9/10]) (9/10))
     = lr (run_epochs driver_init [9/10])"
  by (simp add: epoch_update_def driver_init_def)

subsection \<open>The embedding bag on a one-token sample\<close>

lemma bag_mean_single: "bag_mean width [v] = v"
  by (simp add: bag_mean_def)

lemma EmbeddingBag_examples:
  "EmbeddingBag 2 example_weight [3, 2, 4] [0, 2] = Inr [[-1/8, -3/16], [3/8, 3/8]]"
  "EmbeddingBag 2 example_weight [3, 2] [0, 0] = Inr [[0, 0], [-1/8, -3/16]]"
  "EmbeddingBag 2 example_weight [3, 7] [0, 0] = Inl IndexOutOfRange"
  by (simp_all add: EmbeddingBag_def id_in_range_def example_weight_def span_def bag_mean_def
      upt_rec [of 0] upt_rec[of 1] upt_rec[of 2] numeral_2_eq_2)

text \<open>
  C8. For a sample of a collated batch whose text has exactly one token, the
  embedding-bag stage yields, at the position of the sample, the embedding vector of
  that token: the mean over a span of one element is the element.
\<close>

theorem EmbeddingBag_single_token:
  assumes "batch \<noteq> []"
    and "list_all2 (\<lambda>s l. lp (fst s) = Inr l \<and> int64_ok l) batch ls"
    and "list_all2 (\<lambda>s ids. TextPipeline vocab tokenizer (snd s) = Inr ids \<and>
                      list_all int64_ok ids) batch idss"
    and "list_all (id_in_range weight) (concat idss)"
    and "i < length batch"
    and "tokenizer (snd (batch ! i)) = [token]"
  shows "\<exists>labels texts offsets embedded.
           Collator (TextPipeline vocab tokenizer) lp batch = Inr (labels, texts, offsets) \<and>
           EmbeddingBag width weight texts offsets = Inr embedded \<and>
           length embedded = length batch \<and>
           embedded ! i = weight ! Vocab_getitem vocab token"
proof -
  define offsets where "offsets = cumsum (butlast (0 # map length idss))"
  define embedded where
    "embedded = map (\<lambda>i. bag_mean width (map (\<lambda>k. weight ! nat k) (span (concat idss) offsets i)))
                  [0..<length offsets]"
  have ret: "Collator (TextPipeline vocab tokenizer) lp batch = Inr (ls, concat idss, offsets)"
    and same: "length idss = length batch" and ne: "idss \<noteq> []"
    unfolding offsets_def by (rule Collator_returns [OF assms(1,2,3)])+
  have len: "length offsets = length idss"
    unfolding offsets_def by (rule length_offsets [OF ne])
  have nth: "offsets ! j = length (concat (take j idss))" if "j < length idss" for j
    unfolding offsets_def by (rule nth_offsets [OF that])
  have i: "i < length idss" using assms(5) same by simp
  have "TextPipeline vocab tokenizer (snd (batch ! i)) = Inr (idss ! i)"
    using list_all2_nthD [OF assms(3) assms(5)] by simp
  then have ids: "idss ! i = [int (Vocab_getitem vocab token)]"
    using assms(6) by (simp add: TextPipeline_def)
  have sp: "span (concat idss) offsets i = idss ! i"
    using i len nth by (rule span_offsets)
  have "EmbeddingBag width weight (concat idss) offsets = Inr embedded"
    using assms(4) by (simp add: EmbeddingBag_def embedded_def)
  moreover have "length embedded = length batch"
    using len same by (simp add: embedded_def)
  moreover have "embedded ! i = weight ! Vocab_getitem vocab token"
    using i len by (simp add: embedded_def sp ids bag_mean_single)
  ultimately show ?thesis using ret by blast
qed

theorem EmbeddingBag_single_token_witness:
  "space_tokenizer (snd ([(LStr ''neg'', ''bad film''), (LStr ''pos'', ''great'')] ! 1)) = [''great''] \<and>
   (\<exists>labels texts offsets embedded.
      Collator (TextPipeline example_vocab space_tokenizer) LabelPipeline_imdb
        [(LStr ''neg'', ''bad film''), (LStr ''pos'', ''great'')] = Inr (labels, texts, offsets) \<and>
      EmbeddingBag 2 example_weight texts offsets = Inr embedded \<and>
      length embedded = 2 \<and>
      embedded ! 1 = [3/8, 3/8])"
proof -
  let ?batch = "[(LStr ''neg'', ''bad film''), (LStr ''pos'', ''great'')]"
  have ls: "list_all2 (\<lambda>s l. LabelPipeline_imdb (fst s) = Inr l \<and> int64_ok l) ?batch [0, 1]"
    by (simp add: LabelPipeline_imdb_def int64_ok_def)
  have idss: "list_all2 (\<lambda>s ids. TextPipeline example_vocab space_tokenizer (snd s) = Inr ids \<and>
                list_all int64_ok ids) ?batch [[3, 2], [4]]"
    by (simp add: TextPipeline_def space_tokenizer_def Vocab_getitem_def example_vocab_def
        int64_ok_def)
  have rng: "list_all (id_in_range example_weight) (concat [[3, 2], [4]])"
    by (simp add: id_in_range_def example_weight_def)
  have tok: "space_tokenizer (snd (?batch ! 1)) = [''great'']"
    by (simp add: space_tokenizer_def)
  have "?batch \<noteq> []" and one: "1 < length ?batch" by simp_all
  from EmbeddingBag_single_token [OF this(1) ls idss rng one tok, of 2]
  obtain labels texts offsets embedded where
    "Collator (TextPipeline example_vocab space_tokenizer) LabelPipeline_imdb ?batch
       = Inr (labels, texts, offsets)"
    "EmbeddingBag 2 example_weight texts offsets = Inr embedded"
    "length embedded = length ?batch"
    "embedded ! 1 = example_weight ! Vocab_getitem example_vocab ''great''"
    by blast
  moreover have "example_weight ! Vocab_getitem example_vocab ''great'' = [3/8, 3/8]"
    by (simp add: example_weight_def Vocab_getitem_def example_vocab_def)
  ultimately have "\<exists>labels texts offsets embedded.
      Collator (TextPipeline example_vocab space_tokenizer) LabelPipeline_imdb ?batch
        = Inr (labels, texts, offsets) \<and>
      EmbeddingBag 2 example_weight texts offsets = Inr embedded \<and>
      length embedded = 2 \<and> embedded ! 1 = [3/8, 3/8]"
    by simp
  with tok show ?thesis by blast
qed

end
